theory Spec2Isabelle
  imports Main "HOL-Library.List_Lexorder" "HOL-Library.Sublist"
begin

section \<open>Strings, errors and the library interface\<close>

text \<open>
  A Python \<open>str\<close> is a sequence of Unicode code points, and \<open>len\<close>, indexing, slicing
  and comparison all work on code points.  It is modelled as a list of code point
  numbers; the order on such lists (lexicographic, a proper prefix first) is the order
  Python's \<open>sorted\<close> uses on strings.
\<close>

type_synonym pystr = "nat list"

definition ustr :: "string \<Rightarrow> pystr" where
  "ustr s = map of_char s"

datatype py_error = IndexError | ValueError | FileNotFoundError

section \<open>Guess scorer (main.py, score_guess)\<close>

text \<open>\<open>remaining.get(k, 0)\<close> on the tally dictionary.\<close>

definition tally_get :: "(nat \<rightharpoonup> int) \<Rightarrow> nat \<Rightarrow> int" where
  "tally_get remaining k = (case remaining k of None \<Rightarrow> 0 | Some v \<Rightarrow> v)"

text \<open>Body of the first loop: mark greens, count the unmatched target letters.\<close>

definition score_pass1 ::
  "pystr \<Rightarrow> pystr \<Rightarrow> nat \<Rightarrow> string \<times> (nat \<rightharpoonup> int) \<Rightarrow> string \<times> (nat \<rightharpoonup> int)" where
  "score_pass1 guess target i st =
     (case st of (result, remaining) \<Rightarrow>
        let g = guess ! i; t = target ! i in
        if g = t then (result[i := CHR ''G''], remaining)
        else (result, remaining(t \<mapsto> tally_get remaining t + 1)))"

text \<open>Body of the second loop: hand out yellows while the tally lasts.\<close>

definition score_pass2 ::
  "pystr \<Rightarrow> nat \<Rightarrow> string \<times> (nat \<rightharpoonup> int) \<Rightarrow> string \<times> (nat \<rightharpoonup> int)" where
  "score_pass2 guess i st =
     (case st of (result, remaining) \<Rightarrow>
        if result ! i = CHR ''G'' then (result, remaining)
        else
          let g = guess ! i; count = tally_get remaining g in
          if count > 0 then (result[i := CHR ''Y''], remaining(g \<mapsto> count - 1))
          else (result, remaining))"

text \<open>
  Both loops run over \<open>range(len(target))\<close>.  \<open>guess[i]\<close> raises IndexError as soon as
  \<open>i\<close> reaches the end of a shorter guess; a longer guess is read only up to the
  target's length.
\<close>

definition score_guess :: "pystr \<Rightarrow> pystr \<Rightarrow> py_error + string" where
  "score_guess guess target =
     (let len = length target in
      if length guess < len then Inl IndexError
      else
        let st1 = fold (score_pass1 guess target) [0..<len] (replicate len CHR ''B'', Map.empty);
            st2 = fold (score_pass2 guess) [0..<len] st1
        in Inr (fst st2))"

section \<open>Python string operations used by the parsers\<close>

text \<open>
  The code points for which \<open>str.isspace\<close> holds; \<open>str.strip()\<close> and \<open>str.split()\<close>
  without arguments work with this set.
\<close>

definition py_isspace :: "nat \<Rightarrow> bool" where
  "py_isspace c \<longleftrightarrow>
     (9 \<le> c \<and> c \<le> 13) \<or> (28 \<le> c \<and> c \<le> 32) \<or> c = 133 \<or> c = 160 \<or> c = 5760 \<or>
     (8192 \<le> c \<and> c \<le> 8202) \<or> c = 8232 \<or> c = 8233 \<or> c = 8239 \<or> c = 8287 \<or> c = 12288"

definition py_strip :: "pystr \<Rightarrow> pystr" where
  "py_strip s = rev (dropWhile py_isspace (rev (dropWhile py_isspace s)))"

text \<open>\<open>s.split()\<close>: the maximal runs of non-whitespace, in order.\<close>

fun split_acc :: "pystr \<Rightarrow> pystr \<Rightarrow> pystr list" where
  "split_acc acc [] = (if acc = [] then [] else [acc])"
| "split_acc acc (c # cs) =
     (if py_isspace c then (if acc = [] then split_acc [] cs else acc # split_acc [] cs)
      else split_acc (acc @ [c]) cs)"

definition py_split :: "pystr \<Rightarrow> pystr list" where
  "py_split s = split_acc [] s"

text \<open>
  A text file is modelled by its content.  Iterating over a file opened in text mode
  yields its lines, each with its line feed; with the default \<open>newline=None\<close> a carriage
  return, alone or followed by a line feed, is read as a line feed.  Failures of the
  operating system or of the codec while a file is read or written are outside the model.
\<close>

fun universal_newlines :: "pystr \<Rightarrow> pystr" where
  "universal_newlines [] = []"
| "universal_newlines [c] = (if c = 13 then [10] else [c])"
| "universal_newlines (c # d # cs) =
     (if c = 13 \<and> d = 10 then 10 # universal_newlines cs
      else if c = 13 then 10 # universal_newlines (d # cs)
      else c # universal_newlines (d # cs))"

fun lines_acc :: "pystr \<Rightarrow> pystr \<Rightarrow> pystr list" where
  "lines_acc acc [] = (if acc = [] then [] else [acc])"
| "lines_acc acc (c # cs) =
     (if c = 10 then (acc @ [c]) # lines_acc [] cs else lines_acc (acc @ [c]) cs)"

definition file_lines :: "pystr \<Rightarrow> pystr list" where
  "file_lines content = lines_acc [] (universal_newlines content)"

section \<open>Library and configuration interface\<close>

text \<open>
  Functions of the Python library and data that the repository reads from files that are
  not part of the sources are parameters of the model.  \<open>re_search\<close> and \<open>re_match\<close> take
  the pattern and the subject and return whether a match was found, or the error
  \<open>re.error\<close> that compiling the pattern raises.  \<open>contains_profanity\<close> is \<open>None\<close> when
  the optional package is not installed.  \<open>load_filter_config\<close> gives, for an archetype,
  the configuration that filter.py builds from the JSON files of its \<open>filters\<close> directory
  (the default, empty configuration when there is no file); the function is cached for
  the life of the process, so it is one fixed function.  \<open>path_join\<close> and \<open>normpath\<close> are
  \<open>os.path.join\<close> and \<open>os.path.normpath\<close>.
\<close>

datatype re_error = ReError

record FilterConfig =
  prefixes :: "pystr list"
  suffixes :: "pystr list"
  blacklist :: "pystr list"
  blacklist_files :: "pystr list"

record env =
  str_lower :: "pystr \<Rightarrow> pystr"
  str_isalpha :: "pystr \<Rightarrow> bool"
  str_isdigit :: "pystr \<Rightarrow> bool"
  normalize_nfc :: "pystr \<Rightarrow> pystr"
  re_search :: "pystr \<Rightarrow> pystr \<Rightarrow> re_error + bool"
  re_match :: "pystr \<Rightarrow> pystr \<Rightarrow> re_error + bool"
  contains_profanity :: "(pystr \<Rightarrow> bool) option"
  load_filter_config :: "pystr \<Rightarrow> FilterConfig"
  path_join :: "pystr \<Rightarrow> pystr \<Rightarrow> pystr"
  normpath :: "pystr \<Rightarrow> pystr"

section \<open>Dictionary entry parser (main.py, parse_dic_entries)\<close>

definition normalize_word :: "env \<Rightarrow> pystr \<Rightarrow> pystr" where
  "normalize_word e word = str_lower e (normalize_nfc e word)"

text \<open>
  The part of the loop body that builds an entry: split at the first \<open>/\<close> (code point 47)
  when there is one, and normalise the base.
\<close>

definition dic_entry :: "env \<Rightarrow> pystr \<Rightarrow> pystr \<times> pystr" where
  "dic_entry e stripped =
     (let (base, flags) =
            (if 47 \<in> set stripped
             then (takeWhile (\<lambda>c. c \<noteq> 47) stripped, tl (dropWhile (\<lambda>c. c \<noteq> 47) stripped))
             else (stripped, []))
      in (normalize_word e base, flags))"

text \<open>The loop over the lines; \<open>first\<close> is the flag of the source.\<close>

fun parse_dic_loop :: "env \<Rightarrow> bool \<Rightarrow> pystr list \<Rightarrow> (pystr \<times> pystr) list" where
  "parse_dic_loop e first [] = []"
| "parse_dic_loop e first (line # rest) =
     (let stripped = py_strip line in
      if stripped = [] then parse_dic_loop e first rest
      else if first \<and> str_isdigit e stripped then parse_dic_loop e False rest
      else dic_entry e stripped # parse_dic_loop e False rest)"

definition parse_dic_entries :: "env \<Rightarrow> pystr \<Rightarrow> (pystr \<times> pystr) list" where
  "parse_dic_entries e dic_file = parse_dic_loop e True (file_lines dic_file)"

section \<open>Affix rule parser (main.py, AffRules and parse_aff_rules)\<close>

type_synonym affix_rule = "pystr \<times> pystr \<times> pystr"

record AffRules =
  sfx :: "pystr \<rightharpoonup> affix_rule list"
  pfx :: "pystr \<rightharpoonup> affix_rule list"

definition AffRules_init :: AffRules where
  "AffRules_init = \<lparr>sfx = Map.empty, pfx = Map.empty\<rparr>"

text \<open>\<open>store.get(flag, [])\<close>.\<close>

definition rules_get :: "(pystr \<rightharpoonup> affix_rule list) \<Rightarrow> pystr \<Rightarrow> affix_rule list" where
  "rules_get store flag = (case store flag of None \<Rightarrow> [] | Some lst \<Rightarrow> lst)"

definition add_rule :: "AffRules \<Rightarrow> bool \<Rightarrow> pystr \<Rightarrow> pystr \<Rightarrow> pystr \<Rightarrow> pystr \<Rightarrow> AffRules" where
  "add_rule rules is_suffix flag strip add cond =
     (if is_suffix
      then rules\<lparr>sfx := (sfx rules)(flag \<mapsto> rules_get (sfx rules) flag @ [(strip, add, cond)])\<rparr>
      else rules\<lparr>pfx := (pfx rules)(flag \<mapsto> rules_get (pfx rules) flag @ [(strip, add, cond)])\<rparr>)"

text \<open>Body of the loop over the lines of the affix file.\<close>

definition parse_aff_line :: "AffRules \<Rightarrow> pystr \<Rightarrow> AffRules" where
  "parse_aff_line rules line =
     (let stripped = py_strip line in
      if stripped = [] \<or> prefix (ustr ''#'') stripped then rules
      else
        let parts = py_split stripped in
        if length parts < 4 then rules
        else
          let type_tag = parts ! 0 in
          if type_tag \<noteq> ustr ''SFX'' \<and> type_tag \<noteq> ustr ''PFX'' then rules
          else if length parts \<ge> 5 \<and> parts ! 2 \<noteq> ustr ''Y'' \<and> parts ! 2 \<noteq> ustr ''N'' then
            let flag = parts ! 1;
                strip = (if parts ! 2 \<noteq> ustr ''0'' then parts ! 2 else []);
                add = (if parts ! 3 \<noteq> ustr ''0'' then parts ! 3 else []);
                cond = (if length parts \<ge> 5 then parts ! 4 else ustr ''.'')
            in add_rule rules (type_tag = ustr ''SFX'') flag strip add cond
          else rules)"

text \<open>The argument is \<open>None\<close> when the path is not a file.\<close>

definition parse_aff_rules :: "pystr option \<Rightarrow> AffRules" where
  "parse_aff_rules aff_file =
     (case aff_file of
        None \<Rightarrow> AffRules_init
      | Some content \<Rightarrow> fold (\<lambda>line rules. parse_aff_line rules line) (file_lines content) AffRules_init)"

section \<open>Affix expansion engine (main.py, expand_with_affixes)\<close>

text \<open>
  \<open>letters_re = re.compile(r"^[a-z\<dots>]+$")\<close> with the four letters 228, 246, 252 and 223
  (a-umlaut, o-umlaut, u-umlaut, sharp s) in the class, used through \<open>letters_re.match\<close>.
  Without the MULTILINE flag \<open>$\<close> matches at the end of the subject and also just before
  a line feed that is the subject's last character, so the pattern accepts a non-empty
  run of allowed letters optionally followed by one final line feed.
\<close>

definition allowed_letter :: "nat \<Rightarrow> bool" where
  "allowed_letter c \<longleftrightarrow> (97 \<le> c \<and> c \<le> 122) \<or> c = 228 \<or> c = 246 \<or> c = 252 \<or> c = 223"

definition letters_re_match :: "pystr \<Rightarrow> bool" where
  "letters_re_match s =
     (let body = (if s \<noteq> [] \<and> last s = 10 then butlast s else s)
      in body \<noteq> [] \<and> list_all allowed_letter body)"

text \<open>
  The test \<open>blocked_suffix_additions and add and add.lower() in blocked_suffix_additions\<close>;
  the set is \<open>None\<close> when the caller passes none.
\<close>

definition suffix_blocked :: "env \<Rightarrow> pystr set option \<Rightarrow> pystr \<Rightarrow> bool" where
  "suffix_blocked e blocked_suffix_additions add =
     (case blocked_suffix_additions of
        None \<Rightarrow> False
      | Some blocked \<Rightarrow> blocked \<noteq> {} \<and> add \<noteq> [] \<and> str_lower e add \<in> blocked)"

text \<open>
  The \<open>try\<close> block around the condition: \<open>True\<close> when the rule is abandoned
  (\<open>continue\<close>).  A condition that is the empty string is not handed to the engine, and
  \<open>re.error\<close> is swallowed by \<open>except re.error: pass\<close>.
\<close>

definition cond_rejects :: "pystr \<Rightarrow> re_error + bool \<Rightarrow> bool" where
  "cond_rejects cond searched =
     (cond \<noteq> [] \<and> (case searched of Inl err \<Rightarrow> False | Inr found \<Rightarrow> \<not> found))"

text \<open>Body of the loop over the suffix rules of one flag: the words it yields.\<close>

definition sfx_candidates ::
  "env \<Rightarrow> pystr \<Rightarrow> int \<Rightarrow> pystr set option \<Rightarrow> affix_rule \<Rightarrow> pystr list" where
  "sfx_candidates e base word_length blocked_suffix_additions rule =
     (case rule of (strip, add, cond) \<Rightarrow>
        if suffix_blocked e blocked_suffix_additions add then []
        else if strip \<noteq> [] \<and> \<not> suffix strip base then []
        else
          let stem = (if strip \<noteq> [] then take (length base - length strip) base else base);
              candidate = stem @ add
          in if cond_rejects cond (re_search e (cond @ ustr ''$'') stem) then []
             else if int (length candidate) = word_length \<and> letters_re_match candidate
             then [candidate] else [])"

text \<open>Body of the loop over the prefix rules of one flag.\<close>

definition pfx_candidates :: "env \<Rightarrow> pystr \<Rightarrow> int \<Rightarrow> affix_rule \<Rightarrow> pystr list" where
  "pfx_candidates e base word_length rule =
     (case rule of (strip, add, cond) \<Rightarrow>
        if strip \<noteq> [] \<and> \<not> prefix strip base then []
        else
          let stem = (if strip \<noteq> [] then drop (length strip) base else base);
              candidate = add @ stem
          in if cond_rejects cond (re_match e (ustr ''^'' @ cond) stem) then []
             else if int (length candidate) = word_length \<and> letters_re_match candidate
             then [candidate] else [])"

text \<open>
  The generator, as the list of the words it yields: for each character of the flag
  string, the suffix rules stored under that one-character flag, then the prefix rules.
\<close>

definition generate_affixed_candidates ::
  "env \<Rightarrow> pystr \<Rightarrow> pystr \<Rightarrow> AffRules \<Rightarrow> int \<Rightarrow> pystr set option \<Rightarrow> pystr list" where
  "generate_affixed_candidates e base flags rules word_length blocked_suffix_additions =
     concat (map (\<lambda>flag.
        concat (map (sfx_candidates e base word_length blocked_suffix_additions)
                    (rules_get (sfx rules) [flag]))
        @ concat (map (pfx_candidates e base word_length) (rules_get (pfx rules) [flag])))
       flags)"

text \<open>Body of the loop over the entries: \<open>result.add\<close>, then \<open>result.update\<close>.\<close>

definition expand_entry ::
  "env \<Rightarrow> AffRules \<Rightarrow> int \<Rightarrow> pystr set option \<Rightarrow> pystr \<times> pystr \<Rightarrow> pystr set \<Rightarrow> pystr set" where
  "expand_entry e rules word_length blocked_suffix_additions entry result =
     (case entry of (base, flags) \<Rightarrow>
        (if int (length base) = word_length \<and> letters_re_match base
         then insert base result else result)
        \<union> set (generate_affixed_candidates e base flags rules word_length
                  blocked_suffix_additions))"

definition expand_with_affixes ::
  "env \<Rightarrow> (pystr \<times> pystr) list \<Rightarrow> AffRules \<Rightarrow> int \<Rightarrow> pystr set option \<Rightarrow> pystr set" where
  "expand_with_affixes e entries rules word_length blocked_suffix_additions =
     fold (expand_entry e rules word_length blocked_suffix_additions) entries {}"

section \<open>Language filters (filter.py)\<close>

text \<open>\<open>dict.fromkeys(words)\<close> read back as a sequence: the first occurrence of each word.\<close>

definition dict_fromkeys :: "pystr list \<Rightarrow> pystr list" where
  "dict_fromkeys ws = rev (remdups (rev ws))"

definition FilterConfig_init :: FilterConfig where
  "FilterConfig_init = \<lparr>prefixes = [], suffixes = [], blacklist = [], blacklist_files = []\<rparr>"

definition contains_profanity_check :: "env \<Rightarrow> pystr \<Rightarrow> bool" where
  "contains_profanity_check e text =
     (case contains_profanity e of None \<Rightarrow> False | Some detect \<Rightarrow> detect text)"

definition matches_prefix :: "FilterConfig \<Rightarrow> pystr \<Rightarrow> bool" where
  "matches_prefix config word_lower = list_ex (\<lambda>p. prefix p word_lower) (prefixes config)"

definition matches_suffix :: "FilterConfig \<Rightarrow> pystr \<Rightarrow> bool" where
  "matches_suffix config word_lower = list_ex (\<lambda>s. suffix s word_lower) (suffixes config)"

text \<open>
  Body of the loop of \<open>LanguageFilter.apply\<close> on the state \<open>(processed, seen)\<close>.  A filter
  object holds nothing but the configuration of its archetype (the subclasses for English
  and German only fix the archetype), so it is modelled by that configuration.
\<close>

definition apply_step ::
  "env \<Rightarrow> FilterConfig \<Rightarrow> pystr \<Rightarrow> pystr list \<times> pystr set \<Rightarrow> pystr list \<times> pystr set" where
  "apply_step e config word st =
     (case st of (processed, seen) \<Rightarrow>
        let lower = str_lower e word in
        if \<not> str_isalpha e lower then st
        else if contains_profanity_check e word then st
        else if lower \<in> set (blacklist config) then st
        else if matches_prefix config lower \<or> matches_suffix config lower then st
        else if lower \<in> seen then st
        else (processed @ [word], insert lower seen))"

definition LanguageFilter_apply ::
  "env \<Rightarrow> FilterConfig \<Rightarrow> pystr list \<Rightarrow> pystr set \<Rightarrow> pystr list" where
  "LanguageFilter_apply e config words catalog =
     sort (fst (fold (apply_step e config) words ([], {})))"

definition get_filter_for_archetype :: "env \<Rightarrow> pystr \<Rightarrow> FilterConfig" where
  "get_filter_for_archetype e archetype = load_filter_config e archetype"

definition FILTER_CLASSES :: "pystr list" where
  "FILTER_CLASSES = [ustr ''en'', ustr ''de'']"

text \<open>Code point 45 is the hyphen.\<close>

definition language_archetype :: "env \<Rightarrow> pystr \<Rightarrow> pystr option" where
  "language_archetype e lang =
     (let normalized = str_lower e (py_strip lang) in
      if normalized = [] then None
      else if normalized \<in> set FILTER_CLASSES then Some normalized
      else
        let normalized = (if 45 \<in> set normalized then takeWhile (\<lambda>c. c \<noteq> 45) normalized
                          else normalized)
        in if normalized = [] then None else Some normalized)"

definition filter_candidates ::
  "env \<Rightarrow> pystr list \<Rightarrow> pystr \<Rightarrow> pystr set \<Rightarrow> bool \<Rightarrow> pystr list" where
  "filter_candidates e words lang catalog enable_filters =
     (if \<not> enable_filters then sort (dict_fromkeys words)
      else
        let filtered = sort (dict_fromkeys words);
            filtered = (if filtered \<noteq> []
                        then LanguageFilter_apply e (get_filter_for_archetype e (ustr ''global''))
                               filtered catalog
                        else filtered)
        in case language_archetype e lang of
             None \<Rightarrow> filtered
           | Some archetype \<Rightarrow>
               LanguageFilter_apply e (get_filter_for_archetype e archetype) filtered catalog)"

definition apply_language_filters ::
  "env \<Rightarrow> pystr \<Rightarrow> pystr list \<Rightarrow> pystr set \<Rightarrow> bool \<Rightarrow> pystr list" where
  "apply_language_filters e lang words catalog enable_filters =
     filter_candidates e words lang catalog enable_filters"

section \<open>Filtered-solution cache (filter.py)\<close>

text \<open>
  The files of the cache directory: a map from paths to contents.  The text of
  \<open>f"{word_length}"\<close> is the decimal numeral, with a minus sign (45) for a negative
  number.
\<close>

type_synonym files = "pystr \<rightharpoonup> pystr"

fun nat_digits :: "nat \<Rightarrow> pystr" where
  "nat_digits n = (if n < 10 then [48 + n] else nat_digits (n div 10) @ [48 + n mod 10])"

definition int_str :: "int \<Rightarrow> pystr" where
  "int_str i = (if i < 0 then 45 # nat_digits (nat (- i)) else nat_digits (nat i))"

definition ensure_solution_cache_dir :: "env \<Rightarrow> pystr" where
  "ensure_solution_cache_dir e = normpath e (path_join e (ustr ''cache'') (ustr ''solutions_filtered''))"

definition solution_cache_path :: "env \<Rightarrow> pystr \<Rightarrow> int \<Rightarrow> pystr" where
  "solution_cache_path e lang word_length =
     (let directory = ensure_solution_cache_dir e;
          filename = lang @ ustr ''_'' @ int_str word_length @ ustr ''.txt''
      in normpath e (path_join e directory filename))"

definition load_filtered_solution_cache :: "env \<Rightarrow> files \<Rightarrow> pystr \<Rightarrow> int \<Rightarrow> pystr list" where
  "load_filtered_solution_cache e fs lang word_length =
     (case fs (solution_cache_path e lang word_length) of
        None \<Rightarrow> []
      | Some content \<Rightarrow> filter (\<lambda>line. line \<noteq> []) (map py_strip (file_lines content)))"

definition save_filtered_solution_cache ::
  "env \<Rightarrow> files \<Rightarrow> pystr \<Rightarrow> int \<Rightarrow> pystr list \<Rightarrow> files" where
  "save_filtered_solution_cache e fs lang word_length words =
     (let path = solution_cache_path e lang word_length;
          unique_sorted = sort (dict_fromkeys words)
      in fs(path \<mapsto> concat (map (\<lambda>word. word @ [10]) unique_sorted)))"

section \<open>Morphological heuristics (main.py)\<close>

text \<open>\<open>w[:-n]\<close> for a positive \<open>n\<close>.\<close>

definition chop :: "nat \<Rightarrow> pystr \<Rightarrow> pystr" where
  "chop n w = take (length w - n) w"

definition looks_plural_en :: "env \<Rightarrow> pystr \<Rightarrow> pystr set \<Rightarrow> bool" where
  "looks_plural_en e word catalog =
     (let w = str_lower e word in
      if length w \<le> 3 then False
      else
        (suffix (ustr ''ies'') w \<and> length w > 3 \<and> chop 3 w @ ustr ''y'' \<in> catalog)
        \<or> (suffix (ustr ''ves'') w \<and> length w > 3
             \<and> (chop 3 w @ ustr ''f'' \<in> catalog \<or> chop 3 w @ ustr ''fe'' \<in> catalog))
        \<or> (list_ex (\<lambda>s. suffix s w)
               [ustr ''ses'', ustr ''xes'', ustr ''zes'', ustr ''ches'', ustr ''shes'']
             \<and> chop 2 w \<in> catalog)
        \<or> (suffix (ustr ''men'') w \<and> length w > 3 \<and> chop 3 w @ ustr ''man'' \<in> catalog)
        \<or> (suffix (ustr ''es'') w \<and> length w > 2 \<and> chop 2 w \<in> catalog)
        \<or> (suffix (ustr ''s'') w \<and> length w > 2
             \<and> \<not> list_ex (\<lambda>s. suffix s w) [ustr ''ss'', ustr ''us'', ustr ''is'', ustr ''ous'']
             \<and> chop 1 w \<in> catalog))"

definition looks_past_tense_en :: "env \<Rightarrow> pystr \<Rightarrow> pystr set \<Rightarrow> bool" where
  "looks_past_tense_en e word catalog =
     (let w = str_lower e word in
      if length w \<le> 3 then False
      else
        (suffix (ustr ''ied'') w \<and> length w > 3 \<and> chop 3 w @ ustr ''y'' \<in> catalog)
        \<or> (suffix (ustr ''ed'') w \<and> length w > 3 \<and> chop 2 w \<in> catalog)
        \<or> (suffix (ustr ''t'') w \<and> length w > 3
             \<and> chop 1 w \<in> catalog \<and> chop 1 w @ ustr ''e'' \<in> catalog))"

definition looks_plural_de :: "env \<Rightarrow> pystr \<Rightarrow> pystr set \<Rightarrow> bool" where
  "looks_plural_de e word catalog =
     (let w = str_lower e word in
      if length w \<le> 3 then False
      else
        (suffix (ustr ''innen'') w \<and> length w > 5 \<and> chop 5 w @ ustr ''in'' \<in> catalog)
        \<or> (suffix (ustr ''er'') w \<and> length w > 3 \<and> chop 2 w \<in> catalog)
        \<or> (suffix (ustr ''en'') w \<and> length w > 3
             \<and> \<not> list_ex (\<lambda>s. suffix s w) [ustr ''chen'', ustr ''lein'']
             \<and> chop 2 w \<in> catalog)
        \<or> (suffix (ustr ''e'') w \<and> length w > 3 \<and> chop 1 w \<in> catalog)
        \<or> (suffix (ustr ''s'') w \<and> length w > 3 \<and> chop 1 w \<in> catalog))"

definition looks_past_tense_de :: "env \<Rightarrow> pystr \<Rightarrow> pystr set \<Rightarrow> bool" where
  "looks_past_tense_de e word catalog =
     (let w = str_lower e word in
      if length w \<le> 3 then False
      else
        (prefix (ustr ''ge'') w \<and> length w > 4
           \<and> ((suffix (ustr ''t'') w \<and> chop 1 (drop 2 w) @ ustr ''en'' \<in> catalog)
               \<or> (suffix (ustr ''en'') w \<and> drop 2 w \<in> catalog)))
        \<or> list_ex (\<lambda>ending. suffix ending w \<and> length w > length ending + 1
                       \<and> chop (length ending) w @ ustr ''en'' \<in> catalog)
             [ustr ''te'', ustr ''test'', ustr ''tet'', ustr ''ten''])"

definition should_exclude_inflected :: "env \<Rightarrow> pystr \<Rightarrow> pystr \<Rightarrow> pystr set \<Rightarrow> bool" where
  "should_exclude_inflected e word lang catalog =
     (if catalog = {} then False
      else if prefix (ustr ''en'') lang
      then looks_plural_en e word catalog \<or> looks_past_tense_en e word catalog
      else if prefix (ustr ''de'') lang
      then looks_plural_de e word catalog \<or> looks_past_tense_de e word catalog
      else False)"

section \<open>Dictionary word data (main.py)\<close>

text \<open>
  \<open>_prune_blocked_suffix_bases\<close> changes the set it is given; the model returns the set
  after the call.
\<close>

definition prune_blocked_suffix_bases ::
  "env \<Rightarrow> pystr set \<Rightarrow> pystr set \<Rightarrow> pystr set \<Rightarrow> pystr set" where
  "prune_blocked_suffix_bases e words blocked_suffixes catalog =
     (if blocked_suffixes = {} \<or> words = {} then words
      else
        let normalized_catalog = str_lower e ` catalog;
            removals = Set.filter (\<lambda>word.
                let lower_word = str_lower e word in
                Bex blocked_suffixes (\<lambda>suff.
                  suff \<noteq> [] \<and> suffix suff lower_word
                  \<and> chop (length suff) lower_word \<noteq> []
                  \<and> chop (length suff) lower_word \<in> normalized_catalog)) words
        in words - removals)"

record DictionaryWordData =
  base_words :: "pystr set"
  affixed_words :: "pystr set"
  catalog :: "pystr set"

definition combined :: "DictionaryWordData \<Rightarrow> pystr set" where
  "combined d = base_words d \<union> affixed_words d"

text \<open>\<open>combined_rules.sfx.setdefault(flag, []).extend(rule_list)\<close> for every flag of a table.\<close>

definition merge_store ::
  "(pystr \<rightharpoonup> affix_rule list) \<Rightarrow> (pystr \<rightharpoonup> affix_rule list) \<Rightarrow> (pystr \<rightharpoonup> affix_rule list)" where
  "merge_store combined_store store =
     (\<lambda>flag. case store flag of
                None \<Rightarrow> combined_store flag
              | Some rule_list \<Rightarrow> Some (rules_get combined_store flag @ rule_list))"

text \<open>
  A dictionary folder is modelled by what \<open>_find_matching_dict_pairs\<close> finds in it: the
  contents of each matching pair of an affix file and a word-list file, or \<open>None\<close> when the
  directory does not exist.
\<close>

definition load_dictionary_components ::
  "env \<Rightarrow> (pystr \<times> pystr) list \<Rightarrow> AffRules \<times> (pystr \<times> pystr) list" where
  "load_dictionary_components e dict_pairs =
     fold (\<lambda>pair st.
        case pair of (aff_file, dic_file) \<Rightarrow>
        case st of (combined_rules, all_entries) \<Rightarrow>
          let rules = parse_aff_rules (Some aff_file) in
          (\<lparr>sfx = merge_store (sfx combined_rules) (sfx rules),
            pfx = merge_store (pfx combined_rules) (pfx rules)\<rparr>,
           all_entries @ parse_dic_entries e dic_file))
       dict_pairs (AffRules_init, [])"

definition config_suffixes_lower :: "env \<Rightarrow> pystr \<Rightarrow> pystr set" where
  "config_suffixes_lower e archetype =
     set (map (str_lower e) (filter (\<lambda>s. s \<noteq> []) (suffixes (load_filter_config e archetype))))"

definition collect_dictionary_word_data ::
  "env \<Rightarrow> (pystr \<times> pystr) list option \<Rightarrow> int \<Rightarrow> pystr \<Rightarrow> py_error + DictionaryWordData" where
  "collect_dictionary_word_data e dict_folder word_length lang =
     (case dict_folder of
        None \<Rightarrow> Inl FileNotFoundError
      | Some dict_pairs \<Rightarrow>
          case load_dictionary_components e dict_pairs of (combined_rules, all_entries) \<Rightarrow>
          if all_entries = [] then Inl ValueError
          else
            let base_words0 = set (map fst (filter (\<lambda>entry. int (length (fst entry)) = word_length)
                                               all_entries));
                normalized_lang = str_lower e (py_strip lang);
                archetype = takeWhile (\<lambda>c. c \<noteq> 45) normalized_lang;
                blocked_suffixes =
                  (if normalized_lang \<noteq> [] \<and> archetype \<noteq> []
                   then config_suffixes_lower e archetype else {})
                  \<union> config_suffixes_lower e (ustr ''global'');
                affixed_words0 = expand_with_affixes e all_entries combined_rules word_length
                    (if blocked_suffixes = {} then None else Some blocked_suffixes);
                source_catalog = set (map fst all_entries)
            in Inr \<lparr>base_words = prune_blocked_suffix_bases e base_words0 blocked_suffixes source_catalog,
                    affixed_words = prune_blocked_suffix_bases e affixed_words0 blocked_suffixes source_catalog,
                    catalog = set (map fst all_entries)\<rparr>)"

section \<open>Filtered solutions (main.py, \_load\_or\_build\_filtered\_solutions)\<close>

text \<open>
  The function reads the cache and may write it: it takes the files and returns them with
  its result.  Logging is left out.
\<close>

definition load_or_build_filtered_solutions ::
  "env \<Rightarrow> files \<Rightarrow> pystr \<Rightarrow> int \<Rightarrow> (pystr \<times> pystr) list option \<Rightarrow> bool
     \<Rightarrow> py_error + (pystr list \<times> files)" where
  "load_or_build_filtered_solutions e fs lang word_length dict_folder enable_filters =
     (let cached = (if enable_filters then load_filtered_solution_cache e fs lang word_length else [])
      in
      if enable_filters \<and> cached \<noteq> [] then Inr (cached, fs)
      else
        case collect_dictionary_word_data e dict_folder word_length lang of
          Inl err \<Rightarrow> Inl err
        | Inr data \<Rightarrow>
            let generated_words = sorted_list_of_set (combined data) in
            if generated_words = [] then Inl ValueError
            else if \<not> enable_filters then Inr (generated_words, fs)
            else
              let filtered0 = apply_language_filters e lang generated_words (catalog data)
                                enable_filters;
                  filtered = (if filtered0 = [] then generated_words else filtered0)
              in Inr (filtered, save_filtered_solution_cache e fs lang word_length filtered))"

section \<open>An instance of the interface for ASCII data\<close>

text \<open>
  To run the model on examples, the interface is instantiated for plain ASCII words:
  case mapping and the letter and digit tests on ASCII, no normalisation to do, no
  profanity package, no configuration files, POSIX path joining.  The matcher decides
  conditions made of letters, digits and \<open>.\<close> (any character but a line feed), anchored by
  the final \<open>$\<close> or the initial \<open>^\<close> that the engine adds; it reports any other pattern as
  an error, as Python does for the malformed ones among them.
\<close>

definition ascii_lower_char :: "nat \<Rightarrow> nat" where
  "ascii_lower_char c = (if 65 \<le> c \<and> c \<le> 90 then c + 32 else c)"

definition ascii_letter :: "nat \<Rightarrow> bool" where
  "ascii_letter c \<longleftrightarrow> (65 \<le> c \<and> c \<le> 90) \<or> (97 \<le> c \<and> c \<le> 122)"

definition ascii_digit :: "nat \<Rightarrow> bool" where
  "ascii_digit c \<longleftrightarrow> 48 \<le> c \<and> c \<le> 57"

definition plain_item :: "nat \<Rightarrow> bool" where
  "plain_item c \<longleftrightarrow> c = 46 \<or> ascii_letter c \<or> ascii_digit c"

fun items_match :: "pystr \<Rightarrow> pystr \<Rightarrow> bool" where
  "items_match [] [] = True"
| "items_match (p # ps) (c # cs) = ((if p = 46 then c \<noteq> 10 else p = c) \<and> items_match ps cs)"
| "items_match [] (c # cs) = False"
| "items_match (p # ps) [] = False"

definition plain_search :: "pystr \<Rightarrow> pystr \<Rightarrow> re_error + bool" where
  "plain_search pattern subject =
     (if pattern \<noteq> [] \<and> last pattern = 36 \<and> list_all plain_item (butlast pattern)
      then
        let items = butlast pattern;
            at_end = (\<lambda>s. items_match items (drop (length s - length items) s))
        in Inr (at_end subject \<or> (subject \<noteq> [] \<and> last subject = 10 \<and> at_end (butlast subject)))
      else Inl ReError)"

definition plain_match :: "pystr \<Rightarrow> pystr \<Rightarrow> re_error + bool" where
  "plain_match pattern subject =
     (if pattern \<noteq> [] \<and> hd pattern = 94 \<and> list_all plain_item (tl pattern)
      then Inr (items_match (tl pattern) (take (length (tl pattern)) subject))
      else Inl ReError)"

definition ascii_env :: env where
  "ascii_env =
     \<lparr>str_lower = map ascii_lower_char,
      str_isalpha = (\<lambda>s. s \<noteq> [] \<and> list_all ascii_letter s),
      str_isdigit = (\<lambda>s. s \<noteq> [] \<and> list_all ascii_digit s),
      normalize_nfc = (\<lambda>s. s),
      re_search = plain_search,
      re_match = plain_match,
      contains_profanity = None,
      load_filter_config = (\<lambda>archetype. FilterConfig_init),
      path_join = (\<lambda>a b. if b \<noteq> [] \<and> hd b = 47 then b else a @ ustr ''/'' @ b),
      normpath = (\<lambda>p. p)\<rparr>"

section \<open>Predicates used in the proofs about the filters\<close>

text \<open>
  The tests of \<open>LanguageFilter.apply\<close> that look at one word only, and the lists that a
  filter leaves as they are: sorted, with pairwise different lower-case forms, every
  word passing the tests.
\<close>

definition passes_filter :: "env \<Rightarrow> FilterConfig \<Rightarrow> pystr \<Rightarrow> bool" where
  "passes_filter e config word =
     (let lower = str_lower e word in
      str_isalpha e lower \<and> \<not> contains_profanity_check e word
      \<and> lower \<notin> set (blacklist config)
      \<and> \<not> (matches_prefix config lower \<or> matches_suffix config lower))"

definition settled :: "env \<Rightarrow> FilterConfig \<Rightarrow> pystr list \<Rightarrow> bool" where
  "settled e config ws \<longleftrightarrow>
     sorted ws \<and> distinct (map (str_lower e) ws) \<and> (\<forall>w\<in>set ws. passes_filter e config w)"

section \<open>Verification: guess scorer\<close>

subsection \<open>Loop invariants of the two passes\<close>

lemma pass1_inv:
  assumes "k \<le> length target" "length target \<le> length guess"
  shows "case fold (score_pass1 guess target) [0..<k] (replicate (length target) CHR ''B'', Map.empty) of
           (r, rem) \<Rightarrow> length r = length target
              \<and> (\<forall>i<length target. r ! i = (if i < k \<and> guess ! i = target ! i then CHR ''G'' else CHR ''B''))
              \<and> (\<forall>c. tally_get rem c = int (length (filter (\<lambda>i. guess ! i \<noteq> target ! i \<and> target ! i = c) [0..<k])))"
  using assms
proof (induction k)
  case 0
  then show ?case by (simp add: tally_get_def)
next
  case (Suc k)
  then show ?case
    by (auto simp: score_pass1_def Let_def tally_get_def nth_list_update less_Suc_eq split: prod.splits)
qed

lemma filter_upt_update:
  "filter (\<lambda>i. (r[k := v]) ! i = y \<and> P i) [0..<k] = filter (\<lambda>i. r ! i = y \<and> P i) [0..<k]"
  by (rule filter_cong) auto

lemma pass2_inv:
  assumes "k \<le> length r1" and "\<forall>i<length r1. r1 ! i \<noteq> CHR ''Y''"
  shows "case fold (score_pass2 guess) [0..<k] (r1, rem1) of
           (r, rem) \<Rightarrow> length r = length r1
              \<and> (\<forall>i<length r1. r ! i = r1 ! i \<or> (i < k \<and> r1 ! i \<noteq> CHR ''G'' \<and> r ! i = CHR ''Y''))
              \<and> (\<forall>c. int (length (filter (\<lambda>i. r ! i = CHR ''Y'' \<and> guess ! i = c) [0..<k])) + tally_get rem c
                     = tally_get rem1 c)
              \<and> (\<forall>c. 0 \<le> tally_get rem1 c \<longrightarrow> 0 \<le> tally_get rem c)"
  using assms
proof (induction k)
  case 0
  then show ?case by simp
next
  case (Suc k)
  obtain r rem where st: "fold (score_pass2 guess) [0..<k] (r1, rem1) = (r, rem)"
    by (cases "fold (score_pass2 guess) [0..<k] (r1, rem1)")
  from Suc st have len: "length r = length r1"
    and pt: "\<forall>i<length r1. r ! i = r1 ! i \<or> (i < k \<and> r1 ! i \<noteq> CHR ''G'' \<and> r ! i = CHR ''Y'')"
    and cnt: "\<forall>c. int (length (filter (\<lambda>i. r ! i = CHR ''Y'' \<and> guess ! i = c) [0..<k])) + tally_get rem c
                     = tally_get rem1 c"
    and nn: "\<forall>c. 0 \<le> tally_get rem1 c \<longrightarrow> 0 \<le> tally_get rem c"
    by auto
  from Suc.prems have k: "k < length r1" by simp
  from pt k have rk: "r ! k = r1 ! k" by auto
  with Suc.prems k have rkY: "r ! k \<noteq> CHR ''Y''" by simp
  have step: "fold (score_pass2 guess) [0..<Suc k] (r1, rem1) = score_pass2 guess k (r, rem)"
    by (simp add: st)
  have unchanged: ?case if "score_pass2 guess k (r, rem) = (r, rem)"
    unfolding step that using len pt cnt nn k rkY by (auto simp: less_Suc_eq)
  show ?case
  proof (cases "r ! k = CHR ''G''")
    case True
    then show ?thesis by (intro unchanged) (simp add: score_pass2_def)
  next
    case notG: False
    show ?thesis
    proof (cases "tally_get rem (guess ! k) > 0")
      case False
      with notG have "score_pass2 guess k (r, rem) = (r, rem)"
        by (simp add: score_pass2_def Let_def)
      then show ?thesis by (rule unchanged)
    next
      case True
      with notG have st': "score_pass2 guess k (r, rem)
          = (r[k := CHR ''Y''], rem(guess ! k \<mapsto> tally_get rem (guess ! k) - 1))"
        by (simp add: score_pass2_def Let_def)
      have kr: "k < length r" using k len by simp
      have a: "length (r[k := CHR ''Y'']) = length r1" using len by simp
      have b: "\<forall>i<length r1. (r[k := CHR ''Y'']) ! i = r1 ! i
                 \<or> (i < Suc k \<and> r1 ! i \<noteq> CHR ''G'' \<and> (r[k := CHR ''Y'']) ! i = CHR ''Y'')"
      proof (intro allI impI)
        fix i assume i: "i < length r1"
        show "(r[k := CHR ''Y'']) ! i = r1 ! i
                 \<or> (i < Suc k \<and> r1 ! i \<noteq> CHR ''G'' \<and> (r[k := CHR ''Y'']) ! i = CHR ''Y'')"
        proof (cases "i = k")
          case True
          then show ?thesis using notG rk kr by simp
        next
          case False
          then show ?thesis using pt[rule_format, OF i] by auto
        qed
      qed
      have c: "int (length (filter (\<lambda>i. (r[k := CHR ''Y'']) ! i = CHR ''Y'' \<and> guess ! i = c) [0..<Suc k]))
                + tally_get (rem(guess ! k \<mapsto> tally_get rem (guess ! k) - 1)) c = tally_get rem1 c" for c
        using cnt[rule_format, of c] kr by (auto simp: filter_upt_update tally_get_def)
      have d: "0 \<le> tally_get rem1 c \<longrightarrow> 0 \<le> tally_get (rem(guess ! k \<mapsto> tally_get rem (guess ! k) - 1)) c" for c
        using nn[rule_format, of c] True by (simp add: tally_get_def)
      show ?thesis
        unfolding step st' using a b c d by simp
    qed
  qed
qed


lemma length_filter_upt_card: "length (filter P [0..<n]) = card {i. i < n \<and> P i}"
proof -
  have "card (set (filter P [0..<n])) = length (filter P [0..<n])"
    by (rule distinct_card) simp
  moreover have "set (filter P [0..<n]) = {i. i < n \<and> P i}" by auto
  ultimately show ?thesis by simp
qed

lemma count_list_card: "count_list xs c = card {i. i < length xs \<and> xs ! i = c}"
proof -
  have "count_list xs c = length (filter (\<lambda>x. x = c) xs)"
    by (induction xs) auto
  then show ?thesis by (simp add: length_filter_conv_card)
qed

text \<open>
  Claim C1.  For a guess and a target of the same length, \<open>score_guess\<close> returns a marker
  list of that length; its number of \<open>G\<close> markers is the number of positions where guess
  and target agree; and for every letter \<open>c\<close> the positions that carry a marker other
  than \<open>B\<close> and whose guessed letter is \<open>c\<close> are at most as many as the occurrences of
  \<open>c\<close> in the target.
\<close>

theorem score_guess_markers:
  assumes "length guess = length target"
  shows "\<exists>r. score_guess guess target = Inr r \<and> length r = length target
           \<and> count_list r CHR ''G'' = card {i. i < length target \<and> guess ! i = target ! i}
           \<and> (\<forall>c. card {i. i < length target \<and> r ! i \<noteq> CHR ''B'' \<and> guess ! i = c}
                  \<le> count_list target c)"
proof -
  define n where "n = length target"
  obtain r1 rem1 where st1:
    "fold (score_pass1 guess target) [0..<n] (replicate n CHR ''B'', Map.empty) = (r1, rem1)"
    by (cases "fold (score_pass1 guess target) [0..<n] (replicate n CHR ''B'', Map.empty)")
  obtain r rem where st2: "fold (score_pass2 guess) [0..<n] (r1, rem1) = (r, rem)"
    by (cases "fold (score_pass2 guess) [0..<n] (r1, rem1)")
  from pass1_inv[of n target guess] st1 assms
  have A1: "length r1 = n"
    and A2: "\<forall>i<n. r1 ! i = (if guess ! i = target ! i then CHR ''G'' else CHR ''B'')"
    and A3: "\<forall>c. tally_get rem1 c = int (card {i. i < n \<and> guess ! i \<noteq> target ! i \<and> target ! i = c})"
    by (auto simp: n_def length_filter_upt_card)
  have noY: "\<forall>i<length r1. r1 ! i \<noteq> CHR ''Y''" using A1 A2 by simp
  from pass2_inv[of n r1 guess rem1, OF _ noY] st2 A1
  have B1: "length r = n"
    and B2: "\<forall>i<n. r ! i = r1 ! i \<or> (r1 ! i \<noteq> CHR ''G'' \<and> r ! i = CHR ''Y'')"
    and B3: "\<forall>c. int (card {i. i < n \<and> r ! i = CHR ''Y'' \<and> guess ! i = c}) + tally_get rem c = tally_get rem1 c"
    and B4: "\<forall>c. 0 \<le> tally_get rem1 c \<longrightarrow> 0 \<le> tally_get rem c"
    by (auto simp: length_filter_upt_card)
  have res: "score_guess guess target = Inr r"
    using assms st1 st2 by (simp add: score_guess_def Let_def n_def)
  have G: "r ! i = CHR ''G'' \<longleftrightarrow> guess ! i = target ! i" if "i < n" for i
    using A2[rule_format, OF that] B2[rule_format, OF that] by (auto split: if_splits)
  have "count_list r CHR ''G'' = card {i. i < n \<and> r ! i = CHR ''G''}"
    by (simp add: count_list_card B1)
  also have "{i. i < n \<and> r ! i = CHR ''G''} = {i. i < n \<and> guess ! i = target ! i}"
    using G by auto
  finally have greens: "count_list r CHR ''G'' = card {i. i < n \<and> guess ! i = target ! i}" .
  have bound: "card {i. i < n \<and> r ! i \<noteq> CHR ''B'' \<and> guess ! i = c} \<le> count_list target c" for c
  proof -
    let ?E = "{i. i < n \<and> guess ! i = target ! i \<and> target ! i = c}"
    let ?N = "{i. i < n \<and> guess ! i \<noteq> target ! i \<and> target ! i = c}"
    let ?Y = "{i. i < n \<and> r ! i = CHR ''Y'' \<and> guess ! i = c}"
    have sub: "{i. i < n \<and> r ! i \<noteq> CHR ''B'' \<and> guess ! i = c} \<subseteq> ?E \<union> ?Y"
    proof
      fix i assume "i \<in> {i. i < n \<and> r ! i \<noteq> CHR ''B'' \<and> guess ! i = c}"
      then have i: "i < n" and nb: "r ! i \<noteq> CHR ''B''" and gc: "guess ! i = c" by auto
      from A2[rule_format, OF i] B2[rule_format, OF i] nb gc
      show "i \<in> ?E \<union> ?Y" using i by (auto split: if_splits)
    qed
    have fin: "finite ?E" "finite ?N" "finite ?Y" by auto
    have "card {i. i < n \<and> r ! i \<noteq> CHR ''B'' \<and> guess ! i = c} \<le> card (?E \<union> ?Y)"
      by (rule card_mono) (use fin sub in auto)
    also have "\<dots> \<le> card ?E + card ?Y" by (rule card_Un_le)
    also have "card ?Y \<le> card ?N"
    proof -
      have "0 \<le> tally_get rem1 c" using A3 by simp
      then have "0 \<le> tally_get rem c" using B4 by simp
      with B3[rule_format, of c] A3[rule_format, of c] show ?thesis by linarith
    qed
    also have "card ?E + card ?N = card (?E \<union> ?N)"
      by (rule card_Un_disjoint[symmetric]) (use fin in auto)
    also have "?E \<union> ?N = {i. i < n \<and> target ! i = c}" by auto
    also have "card \<dots> = count_list target c"
      by (simp add: count_list_card n_def)
    finally show ?thesis by simp
  qed
  show ?thesis
    using res B1 greens bound by (simp add: n_def)
qed

theorem score_guess_markers_witness:
  "length (ustr ''aabbb'') = length (ustr ''ababa'') \<and>
   (\<exists>r. score_guess (ustr ''aabbb'') (ustr ''ababa'') = Inr r \<and> length r = length (ustr ''ababa'')
           \<and> count_list r CHR ''G'' = card {i. i < length (ustr ''ababa'') \<and> ustr ''aabbb'' ! i = ustr ''ababa'' ! i}
           \<and> (\<forall>c. card {i. i < length (ustr ''ababa'') \<and> r ! i \<noteq> CHR ''B'' \<and> ustr ''aabbb'' ! i = c}
                  \<le> count_list (ustr ''ababa'') c))"
proof -
  have h: "length (ustr ''aabbb'') = length (ustr ''ababa'')" by (simp add: ustr_def)
  show ?thesis using h score_guess_markers[OF h] by blast
qed

lemmas ascii_env_simps =
  ascii_env_def plain_search_def plain_match_def plain_item_def ascii_letter_def
  ascii_digit_def ascii_lower_char_def FilterConfig_init_def

lemmas affix_simps =
  expand_with_affixes_def expand_entry_def generate_affixed_candidates_def sfx_candidates_def
  pfx_candidates_def cond_rejects_def suffix_blocked_def rules_get_def letters_re_match_def
  allowed_letter_def

lemmas parse_simps =
  parse_aff_rules_def parse_aff_line_def add_rule_def rules_get_def AffRules_init_def
  file_lines_def py_split_def py_strip_def py_isspace_def

section \<open>Verification: affix rule parser\<close>

lemma parse_aff_line_four_fields:
  "length (py_split (py_strip line)) = 4 \<Longrightarrow> parse_aff_line rules line = rules"
  by (simp add: parse_aff_line_def Let_def)

text \<open>
  Claim C2 says that a rule line with exactly four fields (no condition) is recorded with
  the condition \<open>.\<close>.  The parser records a rule only when the line has at least five
  fields: the guard \<open>len(parts) >= 5\<close> makes the default \<open>else "."\<close> of the next lines
  unreachable.  The file \<open>SFX A 0 en\<close> gives the empty rule tables, while \<open>SFX A 0 en .\<close>
  gives the rule.
\<close>

theorem parse_aff_rules_four_field_rule_dropped:
  "parse_aff_rules (Some (ustr ''SFX A 0 en'' @ [10])) = AffRules_init
   \<and> parse_aff_rules (Some (ustr ''SFX A 0 en .'' @ [10]))
       = \<lparr>sfx = [ustr ''A'' \<mapsto> [([], ustr ''en'', ustr ''.'')]], pfx = Map.empty\<rparr>"
  by (simp add: parse_simps ustr_def Let_def)

section \<open>Verification: affix expansion engine\<close>



text \<open>
  Claim C7.  For the single entry \<open>("run", "S")\<close> and the single suffix rule
  \<open>S: strip "", add "s", condition "."\<close>, with target length 4: without a blocked set the
  result is \<open>{"runs"}\<close>; with the blocked set \<open>{"s"}\<close> the rule yields nothing and the
  result is empty.  The two hypotheses are facts of the Python library: \<open>.$\<close> is found in
  \<open>run\<close>, and \<open>"s".lower()\<close> is \<open>"s"\<close>.
\<close>

theorem expand_run_with_suffix_s:
  assumes "re_search e (ustr ''.$'') (ustr ''run'') = Inr True"
    and "str_lower e (ustr ''s'') = ustr ''s''"
  shows "expand_with_affixes e [(ustr ''run'', ustr ''S'')]
           \<lparr>sfx = [ustr ''S'' \<mapsto> [([], ustr ''s'', ustr ''.'')]], pfx = Map.empty\<rparr> 4 None
           = {ustr ''runs''}
       \<and> expand_with_affixes e [(ustr ''run'', ustr ''S'')]
           \<lparr>sfx = [ustr ''S'' \<mapsto> [([], ustr ''s'', ustr ''.'')]], pfx = Map.empty\<rparr> 4
           (Some {ustr ''s''}) = {}"
  using assms by (simp add: affix_simps ustr_def Let_def)



theorem expand_run_with_suffix_s_witness:
  "re_search ascii_env (ustr ''.$'') (ustr ''run'') = Inr True
   \<and> str_lower ascii_env (ustr ''s'') = ustr ''s''
   \<and> expand_with_affixes ascii_env [(ustr ''run'', ustr ''S'')]
           \<lparr>sfx = [ustr ''S'' \<mapsto> [([], ustr ''s'', ustr ''.'')]], pfx = Map.empty\<rparr> 4 None
           = {ustr ''runs''}
   \<and> expand_with_affixes ascii_env [(ustr ''run'', ustr ''S'')]
           \<lparr>sfx = [ustr ''S'' \<mapsto> [([], ustr ''s'', ustr ''.'')]], pfx = Map.empty\<rparr> 4
           (Some {ustr ''s''}) = {}"
proof -
  have h1: "re_search ascii_env (ustr ''.$'') (ustr ''run'') = Inr True"
    by (simp add: ascii_env_simps ustr_def Let_def)
  have h2: "str_lower ascii_env (ustr ''s'') = ustr ''s''"
    by (simp add: ascii_env_simps ustr_def)
  show ?thesis using h1 h2 expand_run_with_suffix_s[OF h1 h2] by simp
qed

text \<open>
  What does hold for every input: each word of the result has the target length and
  passes the alphabet pattern, that is, it is a non-empty run of allowed letters,
  optionally followed by one line feed.
\<close>

lemma sfx_candidates_shape:
  "w \<in> set (sfx_candidates e base word_length blocked rule)
   \<Longrightarrow> int (length w) = word_length \<and> letters_re_match w"
  by (cases rule) (auto simp: sfx_candidates_def Let_def split: if_splits)

lemma pfx_candidates_shape:
  "w \<in> set (pfx_candidates e base word_length rule)
   \<Longrightarrow> int (length w) = word_length \<and> letters_re_match w"
  by (cases rule) (auto simp: pfx_candidates_def Let_def split: if_splits)

lemma generate_affixed_candidates_shape:
  "w \<in> set (generate_affixed_candidates e base flags rules word_length blocked)
   \<Longrightarrow> int (length w) = word_length \<and> letters_re_match w"
  unfolding generate_affixed_candidates_def
  using sfx_candidates_shape pfx_candidates_shape by fastforce

lemma fold_expand_entry_shape:
  "\<forall>w\<in>acc. int (length w) = word_length \<and> letters_re_match w \<Longrightarrow>
   \<forall>w\<in>fold (expand_entry e rules word_length blocked) entries acc.
      int (length w) = word_length \<and> letters_re_match w"
proof (induction entries arbitrary: acc)
  case Nil
  then show ?case by simp
next
  case (Cons entry entries)
  have "\<forall>w\<in>expand_entry e rules word_length blocked entry acc.
          int (length w) = word_length \<and> letters_re_match w"
    using Cons.prems generate_affixed_candidates_shape
    by (cases entry) (auto simp: expand_entry_def)
  then show ?case using Cons.IH by simp
qed

lemma expand_with_affixes_shape:
  "w \<in> expand_with_affixes e entries rules word_length blocked
   \<Longrightarrow> int (length w) = word_length \<and> letters_re_match w"
  using fold_expand_entry_shape[of "{}" word_length e rules blocked entries]
  by (simp add: expand_with_affixes_def)

lemma letters_re_match_cases:
  "letters_re_match w \<longleftrightarrow>
     (w \<noteq> [] \<and> list_all allowed_letter w)
     \<or> (\<exists>body. w = body @ [10] \<and> body \<noteq> [] \<and> list_all allowed_letter body)"
proof -
  have nl: "\<not> allowed_letter 10" by (simp add: allowed_letter_def)
  show ?thesis
  proof (cases "w \<noteq> [] \<and> last w = 10")
    case True
    then have w: "w = butlast w @ [10]" by (metis append_butlast_last_id)
    have "\<not> list_all allowed_letter w"
      using True nl by (metis last_in_set list_all_iff)
    moreover have "(\<exists>body. w = body @ [10] \<and> body \<noteq> [] \<and> list_all allowed_letter body)
         \<longleftrightarrow> butlast w \<noteq> [] \<and> list_all allowed_letter (butlast w)"
      using w by (metis butlast_snoc)
    ultimately show ?thesis using True by (simp add: letters_re_match_def Let_def)
  next
    case False
    then have "\<not> (\<exists>body. w = body @ [10])" by auto
    then show ?thesis using False by (auto simp: letters_re_match_def Let_def)
  qed
qed

section \<open>Verification: dictionary entry parser\<close>

lemma parse_dic_loop_after_first:
  "parse_dic_loop e False lines = map (dic_entry e) (filter (\<lambda>s. s \<noteq> []) (map py_strip lines))"
  by (induction lines) (auto simp: Let_def)

lemma parse_dic_loop_blank_lines:
  "\<forall>p\<in>set pre. py_strip p = [] \<Longrightarrow> parse_dic_loop e first (pre @ rest) = parse_dic_loop e first rest"
  by (induction pre) auto

lemma dic_entry_without_slash:
  "47 \<notin> set s \<Longrightarrow> dic_entry e s = (normalize_word e s, [])"
  by (simp add: dic_entry_def)

text \<open>
  Claim C10.  Let \<open>l\<close> be the first non-blank line of the file.  The entries are: the
  entry of \<open>l\<close> unless \<open>l\<close> is purely numeric, then the entries of all later non-blank
  lines, numeric or not.  So every later non-blank line contributes its entry: its
  text split at the first \<open>/\<close> into base and flags, with empty flags when there is no
  \<open>/\<close>, the base normalised.
\<close>

theorem numeric_line_dropped_only_when_first:
  assumes "file_lines dic_file = pre @ l # rest"
    and "\<forall>p\<in>set pre. py_strip p = []"
    and "py_strip l \<noteq> []"
  shows "parse_dic_entries e dic_file =
           (if str_isdigit e (py_strip l) then [] else [dic_entry e (py_strip l)])
           @ map (dic_entry e) (filter (\<lambda>s. s \<noteq> []) (map py_strip rest))
         \<and> (\<forall>m\<in>set rest. py_strip m \<noteq> [] \<longrightarrow>
               (if 47 \<in> set (py_strip m)
                then (normalize_word e (takeWhile (\<lambda>c. c \<noteq> 47) (py_strip m)),
                      tl (dropWhile (\<lambda>c. c \<noteq> 47) (py_strip m)))
                else (normalize_word e (py_strip m), []))
               \<in> set (parse_dic_entries e dic_file))"
proof -
  have eq: "parse_dic_entries e dic_file =
           (if str_isdigit e (py_strip l) then [] else [dic_entry e (py_strip l)])
           @ map (dic_entry e) (filter (\<lambda>s. s \<noteq> []) (map py_strip rest))"
    using assms
    by (simp add: parse_dic_entries_def parse_dic_loop_blank_lines parse_dic_loop_after_first Let_def)
  have "dic_entry e (py_strip m) \<in> set (parse_dic_entries e dic_file)"
    if "m \<in> set rest" "py_strip m \<noteq> []" for m
    using that unfolding eq by auto
  then show ?thesis using eq by (auto simp: dic_entry_def)
qed

theorem numeric_line_dropped_only_when_first_witness:
  "file_lines (ustr ''3'' @ [10] @ ustr ''Haus/S'' @ [10] @ ustr ''42'' @ [10])
     = [] @ (ustr ''3'' @ [10]) # [ustr ''Haus/S'' @ [10], ustr ''42'' @ [10]]
   \<and> py_strip (ustr ''3'' @ [10]) \<noteq> []
   \<and> parse_dic_entries ascii_env (ustr ''3'' @ [10] @ ustr ''Haus/S'' @ [10] @ ustr ''42'' @ [10])
       = [(ustr ''haus'', ustr ''S''), (ustr ''42'', [])]
   \<and> (ustr ''42'', []) \<in> set (parse_dic_entries ascii_env
         (ustr ''3'' @ [10] @ ustr ''Haus/S'' @ [10] @ ustr ''42'' @ [10]))"
proof -
  have h1: "file_lines (ustr ''3'' @ [10] @ ustr ''Haus/S'' @ [10] @ ustr ''42'' @ [10])
     = [] @ (ustr ''3'' @ [10]) # [ustr ''Haus/S'' @ [10], ustr ''42'' @ [10]]"
    by (simp add: file_lines_def ustr_def)
  have h2: "\<forall>p\<in>set ([]::pystr list). py_strip p = []" by simp
  have h3: "py_strip (ustr ''3'' @ [10]) \<noteq> []"
    by (simp add: py_strip_def py_isspace_def ustr_def)
  from numeric_line_dropped_only_when_first[OF h1 h2 h3, of ascii_env]
  show ?thesis using h1 h3
    by (simp add: ascii_env_simps dic_entry_def normalize_word_def py_strip_def py_isspace_def
        ustr_def Let_def)
qed

section \<open>Verification: language filters\<close>

lemma apply_step_eq:
  "apply_step e config word (processed, seen) =
     (if passes_filter e config word \<and> str_lower e word \<notin> seen
      then (processed @ [word], insert (str_lower e word) seen) else (processed, seen))"
  by (auto simp: apply_step_def passes_filter_def Let_def)

lemma fold_apply_step_inv:
  assumes "fold (apply_step e config) ws (p, s) = (p', s')"
    and "s = str_lower e ` set p"
    and "distinct (map (str_lower e) p)"
    and "\<forall>w\<in>set p. passes_filter e config w"
  shows "s' = str_lower e ` set p' \<and> distinct (map (str_lower e) p')
         \<and> (\<forall>w\<in>set p'. passes_filter e config w) \<and> set p' \<subseteq> set p \<union> set ws"
  using assms
proof (induction ws arbitrary: p s)
  case Nil
  then show ?case by auto
next
  case (Cons w ws)
  show ?case
  proof (cases "passes_filter e config w \<and> str_lower e w \<notin> s")
    case True
    with Cons.prems(1) have f: "fold (apply_step e config) ws (p @ [w], insert (str_lower e w) s) = (p', s')"
      by (simp add: apply_step_eq)
    from Cons.IH[OF f] Cons.prems True show ?thesis by auto
  next
    case False
    with Cons.prems(1) have f: "fold (apply_step e config) ws (p, s) = (p', s')"
      by (simp add: apply_step_eq)
    from Cons.IH[OF f] Cons.prems show ?thesis by auto
  qed
qed

lemma fold_apply_step_keeps_all:
  assumes "\<forall>w\<in>set ws. passes_filter e config w"
    and "distinct (map (str_lower e) (p @ ws))"
  shows "fold (apply_step e config) ws (p, str_lower e ` set p)
           = (p @ ws, str_lower e ` set (p @ ws))"
  using assms
proof (induction ws arbitrary: p)
  case Nil
  then show ?case by simp
next
  case (Cons w ws)
  from Cons.prems have "str_lower e w \<notin> str_lower e ` set p" by auto
  moreover from Cons.prems have "passes_filter e config w" by simp
  ultimately have "apply_step e config w (p, str_lower e ` set p)
      = (p @ [w], str_lower e ` set (p @ [w]))"
    by (simp add: apply_step_eq)
  moreover have "fold (apply_step e config) ws (p @ [w], str_lower e ` set (p @ [w]))
      = ((p @ [w]) @ ws, str_lower e ` set ((p @ [w]) @ ws))"
    using Cons.prems by (intro Cons.IH) auto
  ultimately show ?case by simp
qed

lemma apply_settled: "settled e config (LanguageFilter_apply e config ws cat)"
proof -
  obtain p s where f: "fold (apply_step e config) ws ([], {}) = (p, s)"
    by (cases "fold (apply_step e config) ws ([], {})")
  from fold_apply_step_inv[OF f] have d: "distinct (map (str_lower e) p)"
    and k: "\<forall>w\<in>set p. passes_filter e config w" by auto
  from d have "distinct (map (str_lower e) (sort p))"
    by (simp add: distinct_map)
  with k show ?thesis by (simp add: settled_def LanguageFilter_apply_def f)
qed

lemma apply_subset: "set (LanguageFilter_apply e config ws cat) \<subseteq> set ws"
proof -
  obtain p s where f: "fold (apply_step e config) ws ([], {}) = (p, s)"
    by (cases "fold (apply_step e config) ws ([], {})")
  from fold_apply_step_inv[OF f] show ?thesis by (simp add: LanguageFilter_apply_def f)
qed

lemma apply_id_if_settled:
  "settled e config ws \<Longrightarrow> LanguageFilter_apply e config ws cat = ws"
  using fold_apply_step_keeps_all[of ws e config "[]"]
  by (simp add: settled_def LanguageFilter_apply_def sorted_sort_id)

lemma settled_subset:
  assumes "settled e config ws" and "set vs \<subseteq> set ws" and "sorted vs"
    and "distinct (map (str_lower e) vs)"
  shows "settled e config vs"
  using assms by (auto simp: settled_def)

lemma sort_dict_fromkeys_id:
  "sorted ws \<Longrightarrow> distinct ws \<Longrightarrow> sort (dict_fromkeys ws) = ws"
  by (simp add: dict_fromkeys_def sorted_sort_id distinct_remdups_id)

lemma settled_distinct: "settled e config ws \<Longrightarrow> sorted ws \<and> distinct ws"
  by (auto simp: settled_def distinct_map)

lemma settled_Nil: "settled e config []"
  by (simp add: settled_def)

lemma filter_candidates_settled_id:
  assumes g: "settled e (get_filter_for_archetype e (ustr ''global'')) vs"
    and a: "\<And>a. language_archetype e lang = Some a \<Longrightarrow> settled e (get_filter_for_archetype e a) vs"
  shows "filter_candidates e vs lang cat True = vs"
proof -
  have s: "sort (dict_fromkeys vs) = vs"
    using settled_distinct[OF g] by (simp add: sort_dict_fromkeys_id)
  have gl: "LanguageFilter_apply e (get_filter_for_archetype e (ustr ''global'')) vs cat = vs"
    using g by (rule apply_id_if_settled)
  have mid: "(if vs \<noteq> [] then LanguageFilter_apply e (get_filter_for_archetype e (ustr ''global'')) vs cat
              else vs) = vs"
    using gl by simp
  show ?thesis
  proof (cases "language_archetype e lang")
    case None
    then show ?thesis by (simp add: filter_candidates_def s mid)
  next
    case (Some arch)
    have "LanguageFilter_apply e (get_filter_for_archetype e arch) vs cat = vs"
      using a[OF Some] by (rule apply_id_if_settled)
    then show ?thesis using Some by (simp add: filter_candidates_def s mid)
  qed
qed

text \<open>
  Claim C5.  \<open>filter_candidates\<close> is idempotent: for every word list, language code,
  catalog and setting of the filter switch, filtering the output again with the same
  arguments gives the output back.  This holds for every library instance, every
  profanity detector and every filter configuration.
\<close>

theorem filter_candidates_idempotent:
  "filter_candidates e (filter_candidates e ws lang cat enable_filters) lang cat enable_filters
     = filter_candidates e ws lang cat enable_filters"
proof (cases enable_filters)
  case False
  have "sorted (sort (dict_fromkeys ws))" "distinct (sort (dict_fromkeys ws))"
    by (simp_all add: dict_fromkeys_def)
  then have "sort (dict_fromkeys (sort (dict_fromkeys ws))) = sort (dict_fromkeys ws)"
    by (rule sort_dict_fromkeys_id)
  then show ?thesis using False by (simp add: filter_candidates_def)
next
  case True
  define g where "g = get_filter_for_archetype e (ustr ''global'')"
  define S where "S = sort (dict_fromkeys ws)"
  define G where "G = (if S \<noteq> [] then LanguageFilter_apply e g S cat else S)"
  have G: "settled e g G"
  proof (cases "S = []")
    case True
    then show ?thesis by (simp add: G_def settled_Nil)
  next
    case False
    then show ?thesis by (simp add: G_def apply_settled)
  qed
  show ?thesis
  proof (cases "language_archetype e lang")
    case None
    then have out: "filter_candidates e ws lang cat True = G"
      by (simp add: filter_candidates_def G_def S_def g_def)
    have "filter_candidates e G lang cat True = G"
      using G None by (intro filter_candidates_settled_id) (simp_all add: g_def)
    then show ?thesis using True out by simp
  next
    case (Some a)
    define out where "out = LanguageFilter_apply e (get_filter_for_archetype e a) G cat"
    from Some have res: "filter_candidates e ws lang cat True = out"
      by (simp add: filter_candidates_def G_def S_def g_def out_def)
    have sa: "settled e (get_filter_for_archetype e a) out"
      unfolding out_def by (rule apply_settled)
    have sub: "set out \<subseteq> set G" unfolding out_def by (rule apply_subset)
    have "sorted out" "distinct (map (str_lower e) out)"
      using sa by (simp_all add: settled_def)
    with G sub have sg: "settled e g out"
      by (rule settled_subset)
    have "filter_candidates e out lang cat True = out"
      using sg sa Some by (intro filter_candidates_settled_id) (simp_all add: g_def)
    then show ?thesis using True res by simp
  qed
qed

theorem filter_candidates_idempotent_witness:
  "filter_candidates ascii_env
     (filter_candidates ascii_env [ustr ''b'', ustr ''B'', ustr ''a1'', ustr ''a'', ustr ''b'']
        (ustr ''en-GB'') {} True) (ustr ''en-GB'') {} True
   = [ustr ''B'', ustr ''a'']"
proof -
  have "filter_candidates ascii_env [ustr ''b'', ustr ''B'', ustr ''a1'', ustr ''a'', ustr ''b'']
        (ustr ''en-GB'') {} True = [ustr ''B'', ustr ''a'']"
    by code_simp
  with filter_candidates_idempotent[of ascii_env
      "[ustr ''b'', ustr ''B'', ustr ''a1'', ustr ''a'', ustr ''b'']" "ustr ''en-GB''" "{}" True]
  show ?thesis by simp
qed

section \<open>Verification: filtered-solution cache\<close>









end
